theory Spec2Isabelle
  imports Main
begin

section \<open>Python values used by the two plugins\<close>

text \<open>
  The two files \<^verbatim>\<open>CPickSublimeText/plugin.py\<close> and \<^verbatim>\<open>QuickPickSublimeText/plugin.py\<close>
  each hold one Sublime Text command whose \<^verbatim>\<open>run\<close> method reads the selection of the
  view, and for every Region calls \<^verbatim>\<open>subprocess.Popen\<close>. Python integers are unbounded
  (\<^typ>\<open>int\<close>), strings are \<^typ>\<open>string\<close>, and the two exceptions that can leave
  \<^verbatim>\<open>run\<close> are values of \<open>error\<close>.
\<close>

datatype error = IndexError | OSError

text \<open>
  Indexing a sequence, \<^verbatim>\<open>xs[i]\<close>: a negative index counts from the end, and an index
  outside the sequence raises \<^verbatim>\<open>IndexError\<close>.
\<close>

definition getitem :: "'a list \<Rightarrow> int \<Rightarrow> error + 'a" where
  "getitem xs i =
     (let n = int (length xs); j = (if i < 0 then i + n else i)
      in if 0 \<le> j \<and> j < n then Inr (xs ! nat j) else Inl IndexError)"

text \<open>\<^verbatim>\<open>str\<close> of an integer: decimal digits, with a minus sign below zero.\<close>

definition digit_char :: "nat \<Rightarrow> char" where
  "digit_char d = char_of (48 + d)"

fun str_nat :: "nat \<Rightarrow> string" where
  "str_nat n =
     (if n < 10 then [digit_char n] else str_nat (n div 10) @ [digit_char (n mod 10)])"

declare str_nat.simps [simp del]

definition str_int :: "int \<Rightarrow> string" where
  "str_int i = (if i < 0 then CHR ''-'' # str_nat (nat (- i)) else str_nat (nat i))"

text \<open>
  \<^verbatim>\<open>view.file_name()\<close> is a string, or \<^verbatim>\<open>None\<close> for a buffer that was never saved;
  \<^verbatim>\<open>str(None)\<close> is \<^verbatim>\<open>"None"\<close>.
\<close>

definition str_opt :: "string option \<Rightarrow> string" where
  "str_opt p = (case p of None \<Rightarrow> ''None'' | Some s \<Rightarrow> s)"

text \<open>
  \<^verbatim>\<open>str.format\<close> on the template of the two plugins, which is a placeholder, an at
  sign and a second placeholder: the \<^verbatim>\<open>str\<close> of the first argument, the at sign, the
  \<^verbatim>\<open>str\<close> of the second.
\<close>

definition format_at :: "string option \<Rightarrow> int \<Rightarrow> string" where
  "format_at p n = str_opt p @ ''@'' @ str_int n"

section \<open>The host: regions and the view\<close>

text \<open>
  A \<^verbatim>\<open>sublime.Region\<close> has the two ends \<^verbatim>\<open>a\<close> (where the selection was started) and
  \<^verbatim>\<open>b\<close> (where it ends). Of the view the command reads the selection, the file name,
  the line endings (a string, compared with \<^verbatim>\<open>"Windows"\<close>) and \<^verbatim>\<open>rowcol\<close>, the
  host's map from an offset to its row and column.
\<close>

record region =
  a :: int
  b :: int

record view =
  sel :: "region list"
  file_name :: "string option"
  line_endings :: string
  rowcol :: "int \<Rightarrow> int \<times> int"

section \<open>The process interface\<close>

text \<open>
  A call of \<^verbatim>\<open>subprocess.Popen(args, shell=...)\<close> is recorded with its argument list and
  its \<^verbatim>\<open>shell\<close> flag. The call either returns a process handle or raises; which of the
  two the \<open>k\<close>-th call of a run does is the environment's choice, \<open>os k\<close>. The outcome
  of a run is the list of the calls made, in order (a call that raised included), and
  the exception that left \<^verbatim>\<open>run\<close>, if one did.
\<close>

record popen_call =
  args :: "string list"
  shell :: bool

text \<open>The handle that a call returns (its process id); the plugins bind it and never read it.\<close>

datatype proc = Proc nat

type_synonym os = "nat \<Rightarrow> error + proc"

record outcome =
  attempts :: "popen_call list"
  raised :: "error option"

text \<open>
  What \<^verbatim>\<open>Popen\<close> executes on a POSIX host, after the documentation of \<^verbatim>\<open>subprocess\<close>:
  with \<^verbatim>\<open>shell=True\<close> and a sequence as \<^verbatim>\<open>args\<close>, the first item is the command
  string and the further items are arguments to the shell itself, that is, the program
  run is \<^verbatim>\<open>/bin/sh\<close> with \<^verbatim>\<open>-c\<close> and then the items of \<^verbatim>\<open>args\<close>.
\<close>

definition posix_exec_argv :: "popen_call \<Rightarrow> string list" where
  "posix_exec_argv c = (if shell c then [''/bin/sh'', ''-c''] @ args c else args c)"

section \<open>OpenCpickOnSelection\<close>

text \<open>
  The \<^verbatim>\<open>for\<close> loop of \<^verbatim>\<open>OpenCpickOnSelection.run\<close>, over the Regions that are left,
  with the calls made so far. Nothing catches an exception of \<^verbatim>\<open>Popen\<close>: it ends the
  loop. The handle \<^verbatim>\<open>p\<close> is bound and never read.
\<close>

fun cpick_for :: "os \<Rightarrow> view \<Rightarrow> region list \<Rightarrow> popen_call list \<Rightarrow> outcome" where
  "cpick_for os view [] log = \<lparr>attempts = log, raised = None\<rparr>"
| "cpick_for os view (r # rs) log =
     (let b = a r;
          (row, col) = rowcol view b;
          b = (if line_endings view = ''Windows'' then b + row else b);
          call = \<lparr>args = [''cpick'', format_at (file_name view) b], shell = True\<rparr>
      in case os (length log) of
           Inl e \<Rightarrow> \<lparr>attempts = log @ [call], raised = Some e\<rparr>
         | Inr p \<Rightarrow> cpick_for os view rs (log @ [call]))"

text \<open>
  \<^verbatim>\<open>run\<close>: the last Region is read first, \<^verbatim>\<open>last = sel[len(sel) - 1]\<close>, and not used;
  then the loop runs over the whole selection.
\<close>

definition OpenCpickOnSelection_run :: "os \<Rightarrow> view \<Rightarrow> outcome" where
  "OpenCpickOnSelection_run os view =
     (case getitem (sel view) (int (length (sel view)) - 1) of
        Inl e \<Rightarrow> \<lparr>attempts = [], raised = Some e\<rparr>
      | Inr last' \<Rightarrow> cpick_for os view (sel view) [])"

section \<open>OpenQuickpickOnSelection\<close>

fun quickpick_for :: "os \<Rightarrow> view \<Rightarrow> region list \<Rightarrow> popen_call list \<Rightarrow> outcome" where
  "quickpick_for os view [] log = \<lparr>attempts = log, raised = None\<rparr>"
| "quickpick_for os view (r # rs) log =
     (let b = a r;
          (row, col) = rowcol view b;
          b = (if line_endings view = ''Windows'' then b + row else b);
          call = \<lparr>args = [''quickpick'', format_at (file_name view) b], shell = True\<rparr>
      in case os (length log) of
           Inl e \<Rightarrow> \<lparr>attempts = log @ [call], raised = Some e\<rparr>
         | Inr p \<Rightarrow> quickpick_for os view rs (log @ [call]))"

definition OpenQuickpickOnSelection_run :: "os \<Rightarrow> view \<Rightarrow> outcome" where
  "OpenQuickpickOnSelection_run os view =
     (case getitem (sel view) (int (length (sel view)) - 1) of
        Inl e \<Rightarrow> \<lparr>attempts = [], raised = Some e\<rparr>
      | Inr last' \<Rightarrow> quickpick_for os view (sel view) [])"

section \<open>Notions the properties are stated with\<close>

text \<open>Whether the \<open>k\<close>-th \<^verbatim>\<open>Popen\<close> call of a run returns.\<close>

definition returns :: "os \<Rightarrow> nat \<Rightarrow> bool" where
  "returns os k = (case os k of Inl e \<Rightarrow> False | Inr p \<Rightarrow> True)"

text \<open>
  How many calls a loop over \<open>n\<close> Regions makes when \<open>k\<close> calls were made before it: it
  stops after the first call that raises. \<open>first_error\<close> is the exception of that call.
\<close>

fun tried :: "os \<Rightarrow> nat \<Rightarrow> nat \<Rightarrow> nat" where
  "tried os k 0 = 0"
| "tried os k (Suc n) = (case os k of Inl e \<Rightarrow> 1 | Inr p \<Rightarrow> Suc (tried os (Suc k) n))"

fun first_error :: "os \<Rightarrow> nat \<Rightarrow> nat \<Rightarrow> error option" where
  "first_error os k 0 = None"
| "first_error os k (Suc n) =
     (case os k of Inl e \<Rightarrow> Some e | Inr p \<Rightarrow> first_error os (Suc k) n)"

text \<open>
  The call that a tool's loop makes for a Region whose end \<^verbatim>\<open>a\<close> is \<open>anchor\<close>; the loops
  are shown below to make exactly these calls.
\<close>

definition call_at :: "string \<Rightarrow> view \<Rightarrow> int \<Rightarrow> popen_call" where
  "call_at tool view anchor =
     \<lparr>args = [tool, format_at (file_name view)
        (if line_endings view = ''Windows'' then anchor + fst (rowcol view anchor) else anchor)],
      shell = True\<rparr>"

text \<open>
  Reading a launch target back: the second element of the argument list is the target,
  and the offset in it is the text after its last \<^verbatim>\<open>@\<close>, read as a decimal integer.
\<close>

definition target_of :: "popen_call \<Rightarrow> string option" where
  "target_of c = (case args c of [tool, t] \<Rightarrow> Some t | _ \<Rightarrow> None)"

definition after_last_at :: "string \<Rightarrow> string" where
  "after_last_at s = rev (takeWhile (\<lambda>c. c \<noteq> CHR ''@'') (rev s))"

definition before_last_at :: "string \<Rightarrow> string" where
  "before_last_at s = rev (tl (dropWhile (\<lambda>c. c \<noteq> CHR ''@'') (rev s)))"

definition digit_val :: "char \<Rightarrow> nat option" where
  "digit_val c =
     (let v = (of_char c :: nat) in if 48 \<le> v \<and> v \<le> 57 then Some (v - 48) else None)"

fun parse_digits :: "nat \<Rightarrow> string \<Rightarrow> nat option" where
  "parse_digits acc [] = Some acc"
| "parse_digits acc (c # cs) =
     (case digit_val c of None \<Rightarrow> None | Some d \<Rightarrow> parse_digits (10 * acc + d) cs)"

definition parse_nat :: "string \<Rightarrow> nat option" where
  "parse_nat s = (if s = [] then None else parse_digits 0 s)"

definition parse_int :: "string \<Rightarrow> int option" where
  "parse_int s =
     (case s of
        [] \<Rightarrow> None
      | c # cs \<Rightarrow>
          if c = CHR ''-'' then map_option (\<lambda>n. - int n) (parse_nat cs)
          else map_option int (parse_nat s))"

definition embedded_offset :: "popen_call \<Rightarrow> int option" where
  "embedded_offset c =
     (case target_of c of None \<Rightarrow> None | Some t \<Rightarrow> parse_int (after_last_at t))"

text \<open>The same call with another program name.\<close>

definition with_tool :: "string \<Rightarrow> popen_call \<Rightarrow> popen_call" where
  "with_tool tool c = c\<lparr>args := tool # tl (args c)\<rparr>"

section \<open>Example inputs\<close>

text \<open>
  A buffer whose every line has eleven characters and a line end, so that offset 10 is
  in row 0 and offset 30 in row 2.
\<close>

definition rowcol12 :: "int \<Rightarrow> int \<times> int" where
  "rowcol12 p = (p div 12, p mod 12)"

definition view_windows :: view where
  "view_windows =
     \<lparr>sel = [\<lparr>a = 10, b = 10\<rparr>, \<lparr>a = 30, b = 34\<rparr>], file_name = Some ''C:/f.txt'',
      line_endings = ''Windows'', rowcol = rowcol12\<rparr>"

definition view_unix :: view where
  "view_unix =
     \<lparr>sel = [\<lparr>a = 42, b = 42\<rparr>], file_name = Some ''/tmp/a.txt'',
      line_endings = ''Unix'', rowcol = rowcol12\<rparr>"

definition view_empty :: view where
  "view_empty =
     \<lparr>sel = [], file_name = Some ''/tmp/a.txt'', line_endings = ''Unix'', rowcol = rowcol12\<rparr>"

text \<open>Three Regions in a document with \<^verbatim>\<open>"Unix"\<close> line endings.\<close>

definition view_three :: view where
  "view_three =
     \<lparr>sel = [\<lparr>a = 5, b = 5\<rparr>, \<lparr>a = 17, b = 20\<rparr>, \<lparr>a = 29, b = 29\<rparr>],
      file_name = Some ''/tmp/a.txt'', line_endings = ''Unix'', rowcol = rowcol12\<rparr>"

text \<open>The Windows example with other ends \<^verbatim>\<open>b\<close> of its two Regions.\<close>

definition view_windows_wide :: view where
  "view_windows_wide =
     \<lparr>sel = [\<lparr>a = 10, b = 25\<rparr>, \<lparr>a = 30, b = 2\<rparr>], file_name = Some ''C:/f.txt'',
      line_endings = ''Windows'', rowcol = rowcol12\<rparr>"

text \<open>
  An environment where every call returns, one where the first call raises and one where
  the second call raises.
\<close>

definition os_fine :: os where
  "os_fine k = Inr (Proc k)"

definition os_first_raises :: os where
  "os_first_raises k = (if k = 0 then Inl OSError else Inr (Proc k))"

definition os_second_raises :: os where
  "os_second_raises k = (if k = 1 then Inl OSError else Inr (Proc k))"

section \<open>How far a loop gets\<close>

lemma tried_all:
  "(\<forall>j<n. returns os (k + j)) \<Longrightarrow> tried os k n = n \<and> first_error os k n = None"
proof (induction n arbitrary: k)
  case 0
  then show ?case by simp
next
  case (Suc n)
  from Suc.prems have r0: "returns os k"
    by (metis add.right_neutral zero_less_Suc)
  from Suc.prems have "\<forall>j<n. returns os (Suc k + j)"
    by (metis Suc_less_eq add_Suc_shift)
  from Suc.IH [OF this] r0 show ?case
    by (simp add: returns_def split: sum.splits)
qed

lemma tried_le: "tried os k n \<le> n"
  by (induction n arbitrary: k) (simp_all split: sum.splits)

lemma tried_pos: "0 < n \<Longrightarrow> 0 < tried os k n"
  by (cases n) (simp_all split: sum.splits)

lemma tried_reaches:
  "i < n \<Longrightarrow> (\<forall>j<i. returns os (k + j)) \<Longrightarrow> i < tried os k n"
proof (induction n arbitrary: k i)
  case 0
  then show ?case by simp
next
  case (Suc n)
  show ?case
  proof (cases i)
    case 0
    then show ?thesis by (simp split: sum.splits)
  next
    case (Suc i')
    from Suc.prems(2) Suc have r0: "returns os k"
      by (metis add.right_neutral zero_less_Suc)
    from Suc.prems(2) Suc have "\<forall>j<i'. returns os (Suc k + j)"
      by (metis Suc_less_eq add_Suc_shift)
    moreover from Suc.prems(1) Suc have "i' < n" by simp
    ultimately have "i' < tried os (Suc k) n"
      by (rule Suc.IH [rotated])
    with r0 Suc show ?thesis
      by (simp add: returns_def split: sum.splits)
  qed
qed

lemma tried_stops:
  "i < n \<Longrightarrow> (\<forall>j<i. returns os (k + j)) \<Longrightarrow> os (k + i) = Inl e \<Longrightarrow>
     tried os k n = Suc i \<and> first_error os k n = Some e"
proof (induction n arbitrary: k i)
  case 0
  then show ?case by simp
next
  case (Suc n)
  show ?case
  proof (cases i)
    case 0
    with Suc.prems(3) show ?thesis by simp
  next
    case (Suc i')
    from Suc.prems(2) Suc have r0: "returns os k"
      by (metis add.right_neutral zero_less_Suc)
    from Suc.prems(2) Suc have h2: "\<forall>j<i'. returns os (Suc k + j)"
      by (metis Suc_less_eq add_Suc_shift)
    from Suc.prems(1) Suc have h1: "i' < n" by simp
    from Suc.prems(3) Suc have h3: "os (Suc k + i') = Inl e" by simp
    have "tried os (Suc k) n = Suc i' \<and> first_error os (Suc k) n = Some e"
      by (rule Suc.IH [OF h1 h2 h3])
    with r0 Suc show ?thesis
      by (simp add: returns_def split: sum.splits)
  qed
qed

lemma all_return:
  assumes "\<forall>k<n. returns os k"
  shows "tried os 0 n = n" and "first_error os 0 n = None"
  using tried_all [of n os 0] assms by simp_all

lemma stops_at:
  assumes "k < n" and "\<forall>j<k. returns os j" and "os k = Inl e"
  shows "tried os 0 n = Suc k" and "first_error os 0 n = Some e"
  using tried_stops [of k n os 0 e] assms by simp_all

lemma os_fine_returns: "returns os_fine k"
  by (simp add: returns_def os_fine_def)

section \<open>Reading the offset back from a launch target\<close>

lemma of_char_digit_char: "d < 10 \<Longrightarrow> (of_char (digit_char d) :: nat) = 48 + d"
  by (simp add: digit_char_def)

lemma digit_val_digit_char: "d < 10 \<Longrightarrow> digit_val (digit_char d) = Some d"
  by (simp add: digit_val_def of_char_digit_char)

lemma digit_char_not_at: "d < 10 \<Longrightarrow> digit_char d \<noteq> CHR ''@''"
proof
  assume "d < 10" and "digit_char d = CHR ''@''"
  then have "(of_char (digit_char d) :: nat) = of_char CHR ''@''" by simp
  with \<open>d < 10\<close> show False by (simp add: of_char_digit_char)
qed

lemma digit_char_not_minus: "d < 10 \<Longrightarrow> digit_char d \<noteq> CHR ''-''"
proof
  assume "d < 10" and "digit_char d = CHR ''-''"
  then have "(of_char (digit_char d) :: nat) = of_char CHR ''-''" by simp
  with \<open>d < 10\<close> show False by (simp add: of_char_digit_char)
qed

lemma parse_digits_snoc:
  "parse_digits acc (cs @ [c]) =
     (case parse_digits acc cs of None \<Rightarrow> None
      | Some v \<Rightarrow> (case digit_val c of None \<Rightarrow> None | Some d \<Rightarrow> Some (10 * v + d)))"
  by (induction cs arbitrary: acc) (simp_all split: option.splits)

lemma parse_digits_str_nat: "parse_digits 0 (str_nat n) = Some n"
proof (induction n rule: str_nat.induct)
  case (1 n)
  show ?case
  proof (cases "n < 10")
    case True
    then show ?thesis
      by (subst str_nat.simps) (simp add: digit_val_digit_char)
  next
    case False
    with 1 have "parse_digits 0 (str_nat (n div 10)) = Some (n div 10)" by simp
    with False show ?thesis
      by (subst str_nat.simps) (simp add: parse_digits_snoc digit_val_digit_char)
  qed
qed

lemma str_nat_digits: "set (str_nat n) \<subseteq> digit_char ` {..<10}"
proof (induction n rule: str_nat.induct)
  case (1 n)
  show ?case
  proof (cases "n < 10")
    case True
    then show ?thesis by (subst str_nat.simps) simp
  next
    case False
    with 1 have "set (str_nat (n div 10)) \<subseteq> digit_char ` {..<10}" by simp
    with False show ?thesis by (subst str_nat.simps) simp
  qed
qed

lemma str_nat_nonempty: "str_nat n \<noteq> []"
  by (subst str_nat.simps) simp

lemma str_nat_no_at: "CHR ''@'' \<notin> set (str_nat n)"
  using str_nat_digits [of n] digit_char_not_at by fastforce

lemma str_nat_no_minus: "CHR ''-'' \<notin> set (str_nat n)"
  using str_nat_digits [of n] digit_char_not_minus by fastforce

lemma parse_nat_str_nat: "parse_nat (str_nat n) = Some n"
  by (simp add: parse_nat_def str_nat_nonempty parse_digits_str_nat)

lemma parse_int_str_int: "parse_int (str_int i) = Some i"
proof (cases "i < 0")
  case True
  then show ?thesis
    by (simp add: parse_int_def str_int_def parse_nat_str_nat)
next
  case False
  obtain c cs where s: "str_nat (nat i) = c # cs"
    using str_nat_nonempty [of "nat i"] by (cases "str_nat (nat i)") auto
  then have "c \<noteq> CHR ''-''"
    using str_nat_no_minus [of "nat i"] by auto
  with False s parse_nat_str_nat [of "nat i"] show ?thesis
    by (simp add: parse_int_def str_int_def)
qed

lemma str_int_no_at: "CHR ''@'' \<notin> set (str_int i)"
  by (simp add: str_int_def str_nat_no_at)

lemma after_last_at_append:
  assumes "CHR ''@'' \<notin> set d"
  shows "after_last_at (p @ CHR ''@'' # d) = d"
proof -
  have "takeWhile (\<lambda>c. c \<noteq> CHR ''@'') (rev d @ CHR ''@'' # rev p)
          = takeWhile (\<lambda>c. c \<noteq> CHR ''@'') (rev d)"
    by (rule takeWhile_tail) simp
  also from assms have "\<dots> = rev d"
    by (auto simp: takeWhile_eq_all_conv)
  finally show ?thesis
    by (simp add: after_last_at_def)
qed

lemma before_last_at_append:
  assumes "CHR ''@'' \<notin> set d"
  shows "before_last_at (p @ CHR ''@'' # d) = p"
proof -
  from assms have "dropWhile (\<lambda>c. c \<noteq> CHR ''@'') (rev d) = []"
    by auto
  then have "dropWhile (\<lambda>c. c \<noteq> CHR ''@'') (rev d @ CHR ''@'' # rev p) = CHR ''@'' # rev p"
    by (simp add: dropWhile_append3)
  then show ?thesis
    by (simp add: before_last_at_def)
qed

lemma lt10: "{..<10::nat} = {0, 1, 2, 3, 4, 5, 6, 7, 8, 9}"
  by (simp add: lessThan_nat_numeral lessThan_Suc insert_commute)

lemma digit_char_values:
  "digit_char 0 = CHR ''0''" "digit_char 1 = CHR ''1''" "digit_char 2 = CHR ''2''"
  "digit_char 3 = CHR ''3''" "digit_char 4 = CHR ''4''" "digit_char 5 = CHR ''5''"
  "digit_char 6 = CHR ''6''" "digit_char 7 = CHR ''7''" "digit_char 8 = CHR ''8''"
  "digit_char 9 = CHR ''9''"
  by code_simp+


lemma digit_chars: "digit_char ` {..<10} = set ''0123456789''"
proof -
  have "digit_char ` {..<10} = digit_char ` {0, 1, 2, 3, 4, 5, 6, 7, 8, 9}"
    by (simp only: lt10)
  also have "\<dots> = {digit_char 0, digit_char 1, digit_char 2, digit_char 3, digit_char 4,
      digit_char 5, digit_char 6, digit_char 7, digit_char 8, digit_char 9}"
    by (simp only: image_insert image_empty)
  also have "\<dots> = set ''0123456789''"
    by (simp only: digit_char_values list.set)
  finally show ?thesis .
qed


lemma str_nat_last: "last (str_nat n) \<in> digit_char ` {..<10}"
proof -
  have "last (str_nat n) \<in> set (str_nat n)"
    by (rule last_in_set) (rule str_nat_nonempty)
  with str_nat_digits [of n] show ?thesis
    by (rule_tac subsetD)
qed

lemma str_int_chars: "set (str_int i) \<subseteq> insert CHR ''-'' (digit_char ` {..<10})"
proof (cases "i < 0")
  case True
  with str_nat_digits [of "nat (- i)"] show ?thesis
    by (simp add: str_int_def subset_insertI2)
next
  case False
  with str_nat_digits [of "nat i"] show ?thesis
    by (simp add: str_int_def subset_insertI2)
qed

lemma str_int_nonempty: "str_int i \<noteq> []"
  by (simp add: str_int_def str_nat_nonempty)

lemma str_int_last: "last (str_int i) \<in> digit_char ` {..<10}"
  using str_nat_last [of "nat i"] str_nat_last [of "nat (- i)"]
  by (simp add: str_int_def str_nat_nonempty)

lemma str_int_charset: "set (str_int i) \<subseteq> set ''-0123456789''"
proof -
  have "set ''-0123456789'' = insert CHR ''-'' (digit_char ` {..<10})"
    by (simp only: digit_chars list.set)
  with str_int_chars [of i] show ?thesis
    by (simp only:)
qed

lemma str_int_last_digit: "last (str_int i) \<in> set ''0123456789''"
  using str_int_last [of i] by (simp only: digit_chars)

lemma digit_char_not_blank: "d < 10 \<Longrightarrow> digit_char d \<noteq> CHR '' ''"
proof
  assume "d < 10" and "digit_char d = CHR '' ''"
  then have "(of_char (digit_char d) :: nat) = of_char CHR '' ''" by simp
  with \<open>d < 10\<close> show False by (simp add: of_char_digit_char)
qed

lemma str_int_no_blank: "CHR '' '' \<notin> set (str_int i)"
proof
  assume "CHR '' '' \<in> set (str_int i)"
  with str_int_chars [of i] have "CHR '' '' \<in> insert CHR ''-'' (digit_char ` {..<10})"
    by (rule_tac subsetD)
  then have "CHR '' '' \<in> digit_char ` {..<10}"
    by simp
  then obtain d where "d < 10" and "digit_char d = CHR '' ''"
    by auto
  then show False
    using digit_char_not_blank by blast
qed

lemma embedded_offset_call_at:
  "embedded_offset (call_at tool view x) =
     Some (if line_endings view = ''Windows'' then x + fst (rowcol view x) else x)"
  by (simp add: embedded_offset_def target_of_def call_at_def format_at_def
      after_last_at_append str_int_no_at parse_int_str_int)


section \<open>The loops make the calls of \<open>call_at\<close>, up to the first that raises\<close>

lemma cpick_for_attempts:
  "attempts (cpick_for os view rs log) =
     log @ take (tried os (length log) (length rs)) (map (\<lambda>r. call_at ''cpick'' view (a r)) rs)"
  by (induction rs arbitrary: log)
     (simp_all add: call_at_def Let_def split: prod.splits sum.splits)

lemma cpick_for_raised:
  "raised (cpick_for os view rs log) = first_error os (length log) (length rs)"
  by (induction rs arbitrary: log) (simp_all add: Let_def split: prod.splits sum.splits)

lemma quickpick_for_attempts:
  "attempts (quickpick_for os view rs log) =
     log @ take (tried os (length log) (length rs))
       (map (\<lambda>r. call_at ''quickpick'' view (a r)) rs)"
  by (induction rs arbitrary: log)
     (simp_all add: call_at_def Let_def split: prod.splits sum.splits)

lemma quickpick_for_raised:
  "raised (quickpick_for os view rs log) = first_error os (length log) (length rs)"
  by (induction rs arbitrary: log) (simp_all add: Let_def split: prod.splits sum.splits)

lemma getitem_last: "xs \<noteq> [] \<Longrightarrow> getitem xs (int (length xs) - 1) = Inr (last xs)"
  by (cases xs rule: rev_cases) (simp_all add: getitem_def Let_def nat_diff_distrib')

lemma getitem_empty: "getitem [] (int (length []) - 1) = Inl IndexError"
  by (simp add: getitem_def)

lemma cpick_run_nonempty:
  "sel view \<noteq> [] \<Longrightarrow> OpenCpickOnSelection_run os view = cpick_for os view (sel view) []"
  by (simp add: OpenCpickOnSelection_run_def getitem_last)

lemma quickpick_run_nonempty:
  "sel view \<noteq> [] \<Longrightarrow>
     OpenQuickpickOnSelection_run os view = quickpick_for os view (sel view) []"
  by (simp add: OpenQuickpickOnSelection_run_def getitem_last)

lemma cpick_run_attempts:
  "attempts (OpenCpickOnSelection_run os view) =
     take (tried os 0 (length (sel view))) (map (\<lambda>r. call_at ''cpick'' view (a r)) (sel view))"
proof (cases "sel view = []")
  case True
  then show ?thesis
    by (simp add: OpenCpickOnSelection_run_def getitem_def)
next
  case False
  then show ?thesis
    by (simp add: cpick_run_nonempty cpick_for_attempts)
qed

lemma quickpick_run_attempts:
  "attempts (OpenQuickpickOnSelection_run os view) =
     take (tried os 0 (length (sel view)))
       (map (\<lambda>r. call_at ''quickpick'' view (a r)) (sel view))"
proof (cases "sel view = []")
  case True
  then show ?thesis
    by (simp add: OpenQuickpickOnSelection_run_def getitem_def)
next
  case False
  then show ?thesis
    by (simp add: quickpick_run_nonempty quickpick_for_attempts)
qed

lemma cpick_run_raised:
  "raised (OpenCpickOnSelection_run os view) =
     (if sel view = [] then Some IndexError else first_error os 0 (length (sel view)))"
  by (simp add: OpenCpickOnSelection_run_def getitem_def cpick_run_nonempty cpick_for_raised)

lemma quickpick_run_raised:
  "raised (OpenQuickpickOnSelection_run os view) =
     (if sel view = [] then Some IndexError else first_error os 0 (length (sel view)))"
  by (simp add: OpenQuickpickOnSelection_run_def getitem_def quickpick_run_nonempty
      quickpick_for_raised)

lemma reached:
  assumes "i < length (sel view)" and "\<forall>j<i. returns os j"
  shows "i < tried os 0 (length (sel view))"
  using tried_reaches [of i "length (sel view)" os 0] assms by simp

lemma cpick_run_nth:
  assumes "i < length (sel view)" and "\<forall>j<i. returns os j"
  shows "i < length (attempts (OpenCpickOnSelection_run os view))"
    and "attempts (OpenCpickOnSelection_run os view) ! i = call_at ''cpick'' view (a (sel view ! i))"
  using reached [OF assms] assms(1) by (simp_all add: cpick_run_attempts)

lemma quickpick_run_nth:
  assumes "i < length (sel view)" and "\<forall>j<i. returns os j"
  shows "i < length (attempts (OpenQuickpickOnSelection_run os view))"
    and "attempts (OpenQuickpickOnSelection_run os view) ! i =
           call_at ''quickpick'' view (a (sel view ! i))"
  using reached [OF assms] assms(1) by (simp_all add: quickpick_run_attempts)

lemma target_of_call_at:
  "target_of (call_at tool view x) =
     Some (format_at (file_name view)
       (if line_endings view = ''Windows'' then x + fst (rowcol view x) else x))"
  by (simp add: target_of_def call_at_def)

lemma call_at_same_document:
  assumes "file_name v1 = file_name v2" and "line_endings v1 = line_endings v2"
    and "rowcol v1 = rowcol v2"
  shows "call_at tool v1 = call_at tool v2"
  using assms by (simp add: call_at_def fun_eq_iff)

lemma calls_from_anchors:
  "map (\<lambda>r. call_at tool view (a r)) rs = map (call_at tool view) (map a rs)"
  by simp

lemma with_tool_call_at: "with_tool tool (call_at tool' view x) = call_at tool view x"
  by (simp add: with_tool_def call_at_def)

lemma target_of_with_tool_call_at: "target_of (call_at tool view x) = target_of (call_at tool' view x)"
  by (simp add: target_of_def call_at_def)

section \<open>The empty selection\<close>

text \<open>
  C10: with an empty selection, reading \<^verbatim>\<open>sel[len(sel) - 1]\<close> raises \<^verbatim>\<open>IndexError\<close> before
  the loop is entered, in both commands: \<^verbatim>\<open>run\<close> ends with that exception and no
  \<^verbatim>\<open>Popen\<close> call was made.
\<close>

theorem empty_selection_raises_before_any_spawn:
  assumes "sel view = []"
  shows "OpenCpickOnSelection_run os view = \<lparr>attempts = [], raised = Some IndexError\<rparr>
       \<and> OpenQuickpickOnSelection_run os view = \<lparr>attempts = [], raised = Some IndexError\<rparr>"
  using assms
  by (simp add: OpenCpickOnSelection_run_def OpenQuickpickOnSelection_run_def getitem_def)

theorem empty_selection_raises_before_any_spawn_witness:
  "sel view_empty = []
   \<and> OpenCpickOnSelection_run os_fine view_empty = \<lparr>attempts = [], raised = Some IndexError\<rparr>
   \<and> OpenQuickpickOnSelection_run os_fine view_empty
       = \<lparr>attempts = [], raised = Some IndexError\<rparr>"
proof -
  have h: "sel view_empty = []"
    by (simp add: view_empty_def)
  show ?thesis
    using h empty_selection_raises_before_any_spawn [OF h, of os_fine] by simp
qed

section \<open>The offset in the launch target\<close>

text \<open>
  C1: in a document whose line endings are \<^verbatim>\<open>"Windows"\<close>, for every Region of the
  selection that the loop reaches (every call before it returned), with \<open>b\<close> the end
  \<^verbatim>\<open>a\<close> of the Region and \<open>r\<close> the row of \<open>b\<close>: the call is made, its launch target is
  the format of the file name and \<open>b + r\<close>, and the offset read back from the target is
  \<open>b + r\<close>; in both commands.
\<close>

theorem windows_offset_is_anchor_plus_row:
  assumes "line_endings view = ''Windows''"
    and "i < length (sel view)" and "\<forall>j<i. returns os j"
  shows "i < length (attempts (OpenCpickOnSelection_run os view))
       \<and> target_of (attempts (OpenCpickOnSelection_run os view) ! i)
           = Some (format_at (file_name view)
               (a (sel view ! i) + fst (rowcol view (a (sel view ! i)))))
       \<and> embedded_offset (attempts (OpenCpickOnSelection_run os view) ! i)
           = Some (a (sel view ! i) + fst (rowcol view (a (sel view ! i))))
       \<and> i < length (attempts (OpenQuickpickOnSelection_run os view))
       \<and> target_of (attempts (OpenQuickpickOnSelection_run os view) ! i)
           = Some (format_at (file_name view)
               (a (sel view ! i) + fst (rowcol view (a (sel view ! i)))))
       \<and> embedded_offset (attempts (OpenQuickpickOnSelection_run os view) ! i)
           = Some (a (sel view ! i) + fst (rowcol view (a (sel view ! i))))"
  using assms(1) cpick_run_nth [OF assms(2,3)] quickpick_run_nth [OF assms(2,3)]
  by (simp add: target_of_call_at embedded_offset_call_at)

theorem windows_offset_is_anchor_plus_row_witness:
  "line_endings view_windows = ''Windows'' \<and> (1::nat) < length (sel view_windows)
   \<and> returns os_fine 0
   \<and> a (sel view_windows ! 1) = 30 \<and> fst (rowcol view_windows 30) = 2
   \<and> embedded_offset (attempts (OpenCpickOnSelection_run os_fine view_windows) ! 1) = Some 32
   \<and> embedded_offset (attempts (OpenQuickpickOnSelection_run os_fine view_windows) ! 1) = Some 32"
proof -
  have h1: "line_endings view_windows = ''Windows''"
    by (simp add: view_windows_def)
  have h2: "(1::nat) < length (sel view_windows)"
    by (simp add: view_windows_def)
  have r0: "returns os_fine 0"
    by (simp add: returns_def os_fine_def)
  then have h3: "\<forall>j<1. returns os_fine j"
    by simp
  have v: "a (sel view_windows ! 1) = 30" "fst (rowcol view_windows 30) = 2"
    by (simp_all add: view_windows_def rowcol12_def)
  show ?thesis
    using h1 h2 r0 v windows_offset_is_anchor_plus_row [OF h1 h2 h3] by simp
qed

text \<open>
  C2: in a document whose line endings are anything but \<^verbatim>\<open>"Windows"\<close> (\<^verbatim>\<open>"Unix"\<close>, say),
  for every Region of the selection that the loop reaches, with \<open>b\<close> its end \<^verbatim>\<open>a\<close>: the
  launch target is the format of the file name and \<open>b\<close>, and the offset read back from
  it is \<open>b\<close>, whatever row and column \<^verbatim>\<open>rowcol\<close> gives; in both commands.
\<close>

theorem other_line_endings_keep_offset:
  assumes "line_endings view \<noteq> ''Windows''"
    and "i < length (sel view)" and "\<forall>j<i. returns os j"
  shows "i < length (attempts (OpenCpickOnSelection_run os view))
       \<and> target_of (attempts (OpenCpickOnSelection_run os view) ! i)
           = Some (format_at (file_name view) (a (sel view ! i)))
       \<and> embedded_offset (attempts (OpenCpickOnSelection_run os view) ! i)
           = Some (a (sel view ! i))
       \<and> i < length (attempts (OpenQuickpickOnSelection_run os view))
       \<and> target_of (attempts (OpenQuickpickOnSelection_run os view) ! i)
           = Some (format_at (file_name view) (a (sel view ! i)))
       \<and> embedded_offset (attempts (OpenQuickpickOnSelection_run os view) ! i)
           = Some (a (sel view ! i))"
  using assms(1) cpick_run_nth [OF assms(2,3)] quickpick_run_nth [OF assms(2,3)]
  by (simp add: target_of_call_at embedded_offset_call_at)

theorem other_line_endings_keep_offset_witness:
  "line_endings view_unix \<noteq> ''Windows'' \<and> (0::nat) < length (sel view_unix)
   \<and> a (sel view_unix ! 0) = 42 \<and> rowcol view_unix 42 = (3, 6)
   \<and> embedded_offset (attempts (OpenCpickOnSelection_run os_fine view_unix) ! 0) = Some 42
   \<and> embedded_offset (attempts (OpenQuickpickOnSelection_run os_fine view_unix) ! 0) = Some 42"
proof -
  have h1: "line_endings view_unix \<noteq> ''Windows''"
    by (simp add: view_unix_def)
  have h2: "(0::nat) < length (sel view_unix)"
    by (simp add: view_unix_def)
  have h3: "\<forall>j<0. returns os_fine j"
    by simp
  have v: "a (sel view_unix ! 0) = 42" "rowcol view_unix 42 = (3, 6)"
    by (simp_all add: view_unix_def rowcol12_def)
  show ?thesis
    using h1 h2 v other_line_endings_keep_offset [OF h1 h2 h3] by simp
qed

section \<open>The shape of the launch target\<close>

text \<open>
  C5: for a view whose file name is the path \<open>p\<close> and every Region that the loop reaches,
  the launch target (the second and last element of the argument list) is \<open>p\<close>, one at
  sign and a text \<open>d\<close>, with nothing before, between or after. The text \<open>d\<close> reads as
  the decimal integer that is the offset computed for the Region; it is not empty, has
  no at sign and no blank (only a sign and digits), and ends in a digit, so that the
  text before the last at sign of the target is the path and the text after it is the
  offset. In both commands.
\<close>

theorem launch_target_is_path_at_offset:
  assumes "i < length (sel view)" and "\<forall>j<i. returns os j"
    and "file_name view = Some p"
  shows "\<exists>d. args (attempts (OpenCpickOnSelection_run os view) ! i) = [''cpick'', p @ ''@'' @ d]
           \<and> args (attempts (OpenQuickpickOnSelection_run os view) ! i)
               = [''quickpick'', p @ ''@'' @ d]
           \<and> parse_int d
               = Some (if line_endings view = ''Windows''
                       then a (sel view ! i) + fst (rowcol view (a (sel view ! i)))
                       else a (sel view ! i))
           \<and> d \<noteq> [] \<and> CHR ''@'' \<notin> set d \<and> CHR '' '' \<notin> set d
           \<and> set d \<subseteq> set ''-0123456789''
           \<and> last (p @ ''@'' @ d) \<in> set ''0123456789''
           \<and> before_last_at (p @ ''@'' @ d) = p
           \<and> after_last_at (p @ ''@'' @ d) = d"
proof -
  define n where "n = (if line_endings view = ''Windows''
                  then a (sel view ! i) + fst (rowcol view (a (sel view ! i)))
                  else a (sel view ! i))"
  define d where "d = str_int n"
  have f: "format_at (file_name view) n = p @ ''@'' @ d"
    using assms(3) by (simp add: format_at_def str_opt_def d_def)
  have call: "call_at tool view (a (sel view ! i)) = \<lparr>args = [tool, p @ ''@'' @ d], shell = True\<rparr>"
    for tool
  proof -
    have "call_at tool view (a (sel view ! i))
            = \<lparr>args = [tool, format_at (file_name view) n], shell = True\<rparr>"
      by (simp add: call_at_def n_def)
    then show ?thesis
      by (simp only: f)
  qed
  have c: "args (attempts (OpenCpickOnSelection_run os view) ! i) = [''cpick'', p @ ''@'' @ d]"
    by (simp only: cpick_run_nth(2) [OF assms(1,2)] call) simp
  have q: "args (attempts (OpenQuickpickOnSelection_run os view) ! i)
             = [''quickpick'', p @ ''@'' @ d]"
    by (simp only: quickpick_run_nth(2) [OF assms(1,2)] call) simp
  have pr: "parse_int d = Some n"
    unfolding d_def by (rule parse_int_str_int)
  have ne: "d \<noteq> []"
    unfolding d_def by (rule str_int_nonempty)
  have na: "CHR ''@'' \<notin> set d"
    unfolding d_def by (rule str_int_no_at)
  have nb: "CHR '' '' \<notin> set d"
    unfolding d_def by (rule str_int_no_blank)
  have cs: "set d \<subseteq> set ''-0123456789''"
    unfolding d_def by (rule str_int_charset)
  have "last (p @ ''@'' @ d) = last d"
    using ne by simp
  then have l: "last (p @ ''@'' @ d) \<in> set ''0123456789''"
    using str_int_last_digit [of n] by (simp only: d_def)
  have bl: "before_last_at (p @ ''@'' @ d) = p"
    using before_last_at_append [OF na, of p] by simp
  have al: "after_last_at (p @ ''@'' @ d) = d"
    using after_last_at_append [OF na, of p] by simp
  from c q pr ne na nb cs l bl al show ?thesis
    unfolding n_def by (intro exI [of _ d] conjI)
qed

theorem launch_target_is_path_at_offset_witness:
  "(1::nat) < length (sel view_windows) \<and> returns os_fine 0
   \<and> file_name view_windows = Some ''C:/f.txt''
   \<and> line_endings view_windows = ''Windows''
   \<and> a (sel view_windows ! 1) = 30 \<and> fst (rowcol view_windows 30) = 2
   \<and> (\<exists>d. args (attempts (OpenCpickOnSelection_run os_fine view_windows) ! 1)
              = [''cpick'', ''C:/f.txt'' @ ''@'' @ d]
          \<and> args (attempts (OpenQuickpickOnSelection_run os_fine view_windows) ! 1)
              = [''quickpick'', ''C:/f.txt'' @ ''@'' @ d]
          \<and> parse_int d = Some 32
          \<and> d \<noteq> [] \<and> CHR ''@'' \<notin> set d \<and> CHR '' '' \<notin> set d)
   \<and> args (attempts (OpenCpickOnSelection_run os_fine view_windows) ! 1)
       = [''cpick'', ''C:/f.txt@32'']
   \<and> parse_int ''32'' = Some 32"
proof -
  have h1: "(1::nat) < length (sel view_windows)"
    by (simp add: view_windows_def)
  have r0: "returns os_fine 0"
    by (simp add: returns_def os_fine_def)
  then have h2: "\<forall>j<1. returns os_fine j"
    by simp
  have h3: "file_name view_windows = Some ''C:/f.txt''"
    by (simp add: view_windows_def)
  have w: "line_endings view_windows = ''Windows''"
    by (simp add: view_windows_def)
  have v: "a (sel view_windows ! 1) = 30" "fst (rowcol view_windows 30) = 2"
    by (simp_all add: view_windows_def rowcol12_def)
  have n: "(if line_endings view_windows = ''Windows''
            then a (sel view_windows ! 1) + fst (rowcol view_windows (a (sel view_windows ! 1)))
            else a (sel view_windows ! 1)) = 32"
    by (simp add: view_windows_def rowcol12_def)
  have e: "\<exists>d. args (attempts (OpenCpickOnSelection_run os_fine view_windows) ! 1)
              = [''cpick'', ''C:/f.txt'' @ ''@'' @ d]
          \<and> args (attempts (OpenQuickpickOnSelection_run os_fine view_windows) ! 1)
              = [''quickpick'', ''C:/f.txt'' @ ''@'' @ d]
          \<and> parse_int d = Some 32
          \<and> d \<noteq> [] \<and> CHR ''@'' \<notin> set d \<and> CHR '' '' \<notin> set d"
    using launch_target_is_path_at_offset [OF h1 h2 h3] unfolding n by blast
  have c: "args (attempts (OpenCpickOnSelection_run os_fine view_windows) ! 1)
       = [''cpick'', ''C:/f.txt@32'']"
    by code_simp
  have p: "parse_int ''32'' = Some 32"
    by code_simp
  from h1 r0 h3 w v e c p show ?thesis
    by (intro conjI)
qed

section \<open>Only the end \<^verbatim>\<open>a\<close> of a Region is read\<close>

text \<open>
  C7: the offset of a launch target comes from the end \<^verbatim>\<open>a\<close> of the Region (the
  position where the selection was started), and the other end \<^verbatim>\<open>b\<close> has no effect: two views with the same file name,
  line endings and \<^verbatim>\<open>rowcol\<close> whose selections have the same ends \<^verbatim>\<open>a\<close>, in the same
  order, give the same outcome (the same calls in the same order, the same exception if
  any), in both commands; and the calls made are those of \<open>call_at\<close> on the ends
  \<^verbatim>\<open>a\<close> alone.
\<close>

theorem end_position_has_no_effect:
  assumes "map a (sel v1) = map a (sel v2)"
    and "file_name v1 = file_name v2" and "line_endings v1 = line_endings v2"
    and "rowcol v1 = rowcol v2"
  shows "OpenCpickOnSelection_run os v1 = OpenCpickOnSelection_run os v2
       \<and> OpenQuickpickOnSelection_run os v1 = OpenQuickpickOnSelection_run os v2
       \<and> attempts (OpenCpickOnSelection_run os v1)
           = take (length (attempts (OpenCpickOnSelection_run os v1)))
               (map (call_at ''cpick'' v1) (map a (sel v1)))
       \<and> attempts (OpenQuickpickOnSelection_run os v1)
           = take (length (attempts (OpenQuickpickOnSelection_run os v1)))
               (map (call_at ''quickpick'' v1) (map a (sel v1)))"
proof -
  from assms(1) have len: "length (sel v1) = length (sel v2)"
    by (rule map_eq_imp_length_eq)
  then have emp: "(sel v1 = []) = (sel v2 = [])"
    by (metis length_0_conv)
  have same: "call_at tool v1 = call_at tool v2" for tool
    by (rule call_at_same_document [OF assms(2-4)])
  have ca: "attempts (OpenCpickOnSelection_run os v1) = attempts (OpenCpickOnSelection_run os v2)"
    unfolding cpick_run_attempts calls_from_anchors by (simp only: assms(1) len same)
  have cr: "raised (OpenCpickOnSelection_run os v1) = raised (OpenCpickOnSelection_run os v2)"
    unfolding cpick_run_raised by (simp only: len emp)
  have qa: "attempts (OpenQuickpickOnSelection_run os v1)
          = attempts (OpenQuickpickOnSelection_run os v2)"
    unfolding quickpick_run_attempts calls_from_anchors by (simp only: assms(1) len same)
  have qr: "raised (OpenQuickpickOnSelection_run os v1)
          = raised (OpenQuickpickOnSelection_run os v2)"
    unfolding quickpick_run_raised by (simp only: len emp)
  have c: "OpenCpickOnSelection_run os v1 = OpenCpickOnSelection_run os v2"
    using ca cr by simp
  have q: "OpenQuickpickOnSelection_run os v1 = OpenQuickpickOnSelection_run os v2"
    using qa qr by simp
  have pc: "attempts (OpenCpickOnSelection_run os v1)
           = take (length (attempts (OpenCpickOnSelection_run os v1)))
               (map (call_at ''cpick'' v1) (map a (sel v1)))"
    unfolding cpick_run_attempts calls_from_anchors by (simp add: min_absorb2 tried_le)
  have pq: "attempts (OpenQuickpickOnSelection_run os v1)
           = take (length (attempts (OpenQuickpickOnSelection_run os v1)))
               (map (call_at ''quickpick'' v1) (map a (sel v1)))"
    unfolding quickpick_run_attempts calls_from_anchors by (simp add: min_absorb2 tried_le)
  from c q pc pq show ?thesis
    by (intro conjI)
qed

theorem end_position_has_no_effect_witness:
  "map a (sel view_windows) = map a (sel view_windows_wide)
   \<and> map b (sel view_windows) \<noteq> map b (sel view_windows_wide)
   \<and> OpenCpickOnSelection_run os_fine view_windows
       = OpenCpickOnSelection_run os_fine view_windows_wide
   \<and> OpenQuickpickOnSelection_run os_fine view_windows
       = OpenQuickpickOnSelection_run os_fine view_windows_wide"
proof -
  have h1: "map a (sel view_windows) = map a (sel view_windows_wide)"
    by (simp add: view_windows_def view_windows_wide_def)
  have h2: "file_name view_windows = file_name view_windows_wide"
    by (simp add: view_windows_def view_windows_wide_def)
  have h3: "line_endings view_windows = line_endings view_windows_wide"
    by (simp add: view_windows_def view_windows_wide_def)
  have h4: "rowcol view_windows = rowcol view_windows_wide"
    by (simp add: view_windows_def view_windows_wide_def)
  have d: "map b (sel view_windows) \<noteq> map b (sel view_windows_wide)"
    by (simp add: view_windows_def view_windows_wide_def)
  show ?thesis
    using h1 d end_position_has_no_effect [OF h1 h2 h3 h4, of os_fine] by simp
qed

section \<open>The two commands\<close>

text \<open>
  C8: for every view and every environment the two commands make the same number of
  calls, in the same order, with the same launch targets, and end the same way; each
  call of one command is the call of the other with the program name replaced, and the
  program name is the only difference.
\<close>

theorem commands_agree_up_to_tool_name:
  "attempts (OpenQuickpickOnSelection_run os view)
     = map (with_tool ''quickpick'') (attempts (OpenCpickOnSelection_run os view))
   \<and> attempts (OpenCpickOnSelection_run os view)
     = map (with_tool ''cpick'') (attempts (OpenQuickpickOnSelection_run os view))
   \<and> map target_of (attempts (OpenQuickpickOnSelection_run os view))
     = map target_of (attempts (OpenCpickOnSelection_run os view))
   \<and> length (attempts (OpenQuickpickOnSelection_run os view))
     = length (attempts (OpenCpickOnSelection_run os view))
   \<and> raised (OpenQuickpickOnSelection_run os view) = raised (OpenCpickOnSelection_run os view)"
proof -
  have 1: "attempts (OpenQuickpickOnSelection_run os view)
     = map (with_tool ''quickpick'') (attempts (OpenCpickOnSelection_run os view))"
    by (simp add: cpick_run_attempts quickpick_run_attempts take_map with_tool_call_at comp_def)
  have 2: "attempts (OpenCpickOnSelection_run os view)
     = map (with_tool ''cpick'') (attempts (OpenQuickpickOnSelection_run os view))"
    by (simp add: cpick_run_attempts quickpick_run_attempts take_map with_tool_call_at comp_def)
  have 3: "map target_of (attempts (OpenQuickpickOnSelection_run os view))
     = map target_of (attempts (OpenCpickOnSelection_run os view))"
    by (simp add: cpick_run_attempts quickpick_run_attempts take_map comp_def
        target_of_with_tool_call_at [of "''quickpick''" _ _ "''cpick''"])
  have 4: "length (attempts (OpenQuickpickOnSelection_run os view))
     = length (attempts (OpenCpickOnSelection_run os view))"
    by (simp add: cpick_run_attempts quickpick_run_attempts)
  have 5: "raised (OpenQuickpickOnSelection_run os view) = raised (OpenCpickOnSelection_run os view)"
    by (simp add: cpick_run_raised quickpick_run_raised)
  from 1 2 3 4 5 show ?thesis
    by (intro conjI)
qed

section \<open>How many calls are made\<close>

text \<open>
  C3, as amended: for a selection of \<open>n > 0\<close> Regions the calls made are those for the
  first Regions of the selection, one per Region and in the order of the selection, at
  least one and at most \<open>n\<close>; when none of the \<open>n\<close> calls raises, they are exactly the
  \<open>n\<close> calls, one per Region, and \<^verbatim>\<open>run\<close> ends without an exception. In both commands.
\<close>

theorem one_attempt_per_region_while_calls_return:
  assumes "sel view \<noteq> []"
  shows "attempts (OpenCpickOnSelection_run os view) \<noteq> []
       \<and> length (attempts (OpenCpickOnSelection_run os view)) \<le> length (sel view)
       \<and> attempts (OpenCpickOnSelection_run os view)
           = take (length (attempts (OpenCpickOnSelection_run os view)))
               (map (\<lambda>r. call_at ''cpick'' view (a r)) (sel view))
       \<and> attempts (OpenQuickpickOnSelection_run os view) \<noteq> []
       \<and> length (attempts (OpenQuickpickOnSelection_run os view)) \<le> length (sel view)
       \<and> attempts (OpenQuickpickOnSelection_run os view)
           = take (length (attempts (OpenQuickpickOnSelection_run os view)))
               (map (\<lambda>r. call_at ''quickpick'' view (a r)) (sel view))
       \<and> ((\<forall>k<length (sel view). returns os k) \<longrightarrow>
            OpenCpickOnSelection_run os view
              = \<lparr>attempts = map (\<lambda>r. call_at ''cpick'' view (a r)) (sel view), raised = None\<rparr>
          \<and> OpenQuickpickOnSelection_run os view
              = \<lparr>attempts = map (\<lambda>r. call_at ''quickpick'' view (a r)) (sel view),
                 raised = None\<rparr>)"
proof -
  let ?n = "length (sel view)"
  from assms have pos: "0 < tried os 0 ?n"
    by (simp add: tried_pos)
  have le: "tried os 0 ?n \<le> ?n"
    by (rule tried_le)
  have c1: "attempts (OpenCpickOnSelection_run os view) \<noteq> []"
    using pos assms by (simp add: cpick_run_attempts)
  have c2: "length (attempts (OpenCpickOnSelection_run os view)) \<le> ?n"
    by (simp add: cpick_run_attempts)
  have c3: "attempts (OpenCpickOnSelection_run os view)
           = take (length (attempts (OpenCpickOnSelection_run os view)))
               (map (\<lambda>r. call_at ''cpick'' view (a r)) (sel view))"
    using le by (simp add: cpick_run_attempts min_absorb2)
  have q1: "attempts (OpenQuickpickOnSelection_run os view) \<noteq> []"
    using pos assms by (simp add: quickpick_run_attempts)
  have q2: "length (attempts (OpenQuickpickOnSelection_run os view)) \<le> ?n"
    by (simp add: quickpick_run_attempts)
  have q3: "attempts (OpenQuickpickOnSelection_run os view)
           = take (length (attempts (OpenQuickpickOnSelection_run os view)))
               (map (\<lambda>r. call_at ''quickpick'' view (a r)) (sel view))"
    using le by (simp add: quickpick_run_attempts min_absorb2)
  have all: "OpenCpickOnSelection_run os view
              = \<lparr>attempts = map (\<lambda>r. call_at ''cpick'' view (a r)) (sel view), raised = None\<rparr>
          \<and> OpenQuickpickOnSelection_run os view
              = \<lparr>attempts = map (\<lambda>r. call_at ''quickpick'' view (a r)) (sel view),
                 raised = None\<rparr>"
    if ok: "\<forall>k<?n. returns os k"
  proof -
    have "attempts (OpenCpickOnSelection_run os view)
            = map (\<lambda>r. call_at ''cpick'' view (a r)) (sel view)"
      by (simp add: cpick_run_attempts all_return(1) [OF ok])
    moreover have "raised (OpenCpickOnSelection_run os view) = None"
      using assms by (simp add: cpick_run_raised all_return(2) [OF ok])
    moreover have "attempts (OpenQuickpickOnSelection_run os view)
            = map (\<lambda>r. call_at ''quickpick'' view (a r)) (sel view)"
      by (simp add: quickpick_run_attempts all_return(1) [OF ok])
    moreover have "raised (OpenQuickpickOnSelection_run os view) = None"
      using assms by (simp add: quickpick_run_raised all_return(2) [OF ok])
    ultimately show ?thesis
      by (simp add: outcome.equality)
  qed
  from c1 c2 c3 q1 q2 q3 all show ?thesis
    by blast
qed

theorem one_attempt_per_region_while_calls_return_witness:
  "sel view_three \<noteq> [] \<and> length (sel view_three) = 3
   \<and> returns os_fine 0 \<and> returns os_fine 1 \<and> returns os_fine 2
   \<and> OpenCpickOnSelection_run os_fine view_three
       = \<lparr>attempts = [\<lparr>args = [''cpick'', ''/tmp/a.txt@5''], shell = True\<rparr>,
                      \<lparr>args = [''cpick'', ''/tmp/a.txt@17''], shell = True\<rparr>,
                      \<lparr>args = [''cpick'', ''/tmp/a.txt@29''], shell = True\<rparr>],
          raised = None\<rparr>
   \<and> OpenQuickpickOnSelection_run os_fine view_three
       = \<lparr>attempts = [\<lparr>args = [''quickpick'', ''/tmp/a.txt@5''], shell = True\<rparr>,
                      \<lparr>args = [''quickpick'', ''/tmp/a.txt@17''], shell = True\<rparr>,
                      \<lparr>args = [''quickpick'', ''/tmp/a.txt@29''], shell = True\<rparr>],
          raised = None\<rparr>"
proof -
  have h: "sel view_three \<noteq> []"
    by (simp add: view_three_def)
  have n: "length (sel view_three) = 3"
    by (simp add: view_three_def)
  have ok: "\<forall>k<length (sel view_three). returns os_fine k"
    by (simp add: os_fine_returns)
  have c: "map (\<lambda>r. call_at ''cpick'' view_three (a r)) (sel view_three)
         = [\<lparr>args = [''cpick'', ''/tmp/a.txt@5''], shell = True\<rparr>,
            \<lparr>args = [''cpick'', ''/tmp/a.txt@17''], shell = True\<rparr>,
            \<lparr>args = [''cpick'', ''/tmp/a.txt@29''], shell = True\<rparr>]"
    by code_simp
  have q: "map (\<lambda>r. call_at ''quickpick'' view_three (a r)) (sel view_three)
         = [\<lparr>args = [''quickpick'', ''/tmp/a.txt@5''], shell = True\<rparr>,
            \<lparr>args = [''quickpick'', ''/tmp/a.txt@17''], shell = True\<rparr>,
            \<lparr>args = [''quickpick'', ''/tmp/a.txt@29''], shell = True\<rparr>]"
    by code_simp
  from one_attempt_per_region_while_calls_return [OF h, of os_fine] ok
  have "OpenCpickOnSelection_run os_fine view_three
          = \<lparr>attempts = map (\<lambda>r. call_at ''cpick'' view_three (a r)) (sel view_three),
             raised = None\<rparr>
      \<and> OpenQuickpickOnSelection_run os_fine view_three
          = \<lparr>attempts = map (\<lambda>r. call_at ''quickpick'' view_three (a r)) (sel view_three),
             raised = None\<rparr>"
    by blast
  with h n os_fine_returns show ?thesis
    by (simp only: c q simp_thms)
qed

text \<open>
  C3 as stated fails: with three Regions and an environment whose second call raises,
  two calls are made, not three.
\<close>

theorem second_call_raises_third_region_not_attempted:
  "length (sel view_three) = 3
   \<and> OpenCpickOnSelection_run os_second_raises view_three
       = \<lparr>attempts = [\<lparr>args = [''cpick'', ''/tmp/a.txt@5''], shell = True\<rparr>,
                      \<lparr>args = [''cpick'', ''/tmp/a.txt@17''], shell = True\<rparr>],
          raised = Some OSError\<rparr>
   \<and> OpenQuickpickOnSelection_run os_second_raises view_three
       = \<lparr>attempts = [\<lparr>args = [''quickpick'', ''/tmp/a.txt@5''], shell = True\<rparr>,
                      \<lparr>args = [''quickpick'', ''/tmp/a.txt@17''], shell = True\<rparr>],
          raised = Some OSError\<rparr>"
  by code_simp

text \<open>
  C6, as amended: with two Regions whose ends \<^verbatim>\<open>a\<close> are 10 (row 0) and 30 (row 2), in a
  document with \<^verbatim>\<open>"Windows"\<close> line endings, when both \<^verbatim>\<open>Popen\<close> calls return, exactly two
  calls are made, with the offsets 10 and 32 in that order, and \<^verbatim>\<open>run\<close> ends without an
  exception. In both commands.
\<close>

theorem two_regions_windows_scenario:
  assumes "sel view = [r1, r2]" and "a r1 = 10" and "a r2 = 30"
    and "fst (rowcol view 10) = 0" and "fst (rowcol view 30) = 2"
    and "line_endings view = ''Windows''"
    and "returns os 0" and "returns os 1"
  shows "map embedded_offset (attempts (OpenCpickOnSelection_run os view)) = [Some 10, Some 32]
       \<and> map embedded_offset (attempts (OpenQuickpickOnSelection_run os view))
           = [Some 10, Some 32]
       \<and> attempts (OpenCpickOnSelection_run os view)
           = [\<lparr>args = [''cpick'', format_at (file_name view) 10], shell = True\<rparr>,
              \<lparr>args = [''cpick'', format_at (file_name view) 32], shell = True\<rparr>]
       \<and> attempts (OpenQuickpickOnSelection_run os view)
           = [\<lparr>args = [''quickpick'', format_at (file_name view) 10], shell = True\<rparr>,
              \<lparr>args = [''quickpick'', format_at (file_name view) 32], shell = True\<rparr>]
       \<and> raised (OpenCpickOnSelection_run os view) = None
       \<and> raised (OpenQuickpickOnSelection_run os view) = None"
proof -
  have ok: "\<forall>k<length (sel view). returns os k"
    using assms(1,7,8) by (simp add: less_Suc_eq)
  have ne: "sel view \<noteq> []"
    using assms(1) by simp
  have ca: "attempts (OpenCpickOnSelection_run os view)
           = [call_at ''cpick'' view 10, call_at ''cpick'' view 30]"
    unfolding cpick_run_attempts all_return(1) [OF ok] using assms(1-3) by simp
  have qa: "attempts (OpenQuickpickOnSelection_run os view)
           = [call_at ''quickpick'' view 10, call_at ''quickpick'' view 30]"
    unfolding quickpick_run_attempts all_return(1) [OF ok] using assms(1-3) by simp
  have cr: "raised (OpenCpickOnSelection_run os view) = None"
    using ne by (simp add: cpick_run_raised all_return(2) [OF ok])
  have qr: "raised (OpenQuickpickOnSelection_run os view) = None"
    using ne by (simp add: quickpick_run_raised all_return(2) [OF ok])
  have e: "embedded_offset (call_at tool view 10) = Some 10"
          "embedded_offset (call_at tool view 30) = Some 32" for tool
    using assms(4-6) by (simp_all add: embedded_offset_call_at)
  have c: "call_at tool view 10 = \<lparr>args = [tool, format_at (file_name view) 10], shell = True\<rparr>"
          "call_at tool view 30 = \<lparr>args = [tool, format_at (file_name view) 32], shell = True\<rparr>"
    for tool
    using assms(4-6) by (simp_all add: call_at_def)
  show ?thesis
    unfolding ca qa cr qr by (simp add: e) (simp add: c)
qed

theorem two_regions_windows_scenario_witness:
  "sel view_windows = [\<lparr>a = 10, b = 10\<rparr>, \<lparr>a = 30, b = 34\<rparr>]
   \<and> fst (rowcol view_windows 10) = 0 \<and> fst (rowcol view_windows 30) = 2
   \<and> line_endings view_windows = ''Windows'' \<and> returns os_fine 0 \<and> returns os_fine 1
   \<and> map embedded_offset (attempts (OpenCpickOnSelection_run os_fine view_windows))
       = [Some 10, Some 32]
   \<and> map embedded_offset (attempts (OpenQuickpickOnSelection_run os_fine view_windows))
       = [Some 10, Some 32]
   \<and> raised (OpenCpickOnSelection_run os_fine view_windows) = None
   \<and> raised (OpenQuickpickOnSelection_run os_fine view_windows) = None"
proof -
  have h1: "sel view_windows = [\<lparr>a = 10, b = 10\<rparr>, \<lparr>a = 30, b = 34\<rparr>]"
    by (simp add: view_windows_def)
  have h2: "a \<lparr>a = 10, b = 10\<rparr> = 10" and h3: "a \<lparr>a = 30, b = 34\<rparr> = 30"
    by simp_all
  have h4: "fst (rowcol view_windows 10) = 0" and h5: "fst (rowcol view_windows 30) = 2"
    by (simp_all add: view_windows_def rowcol12_def)
  have h6: "line_endings view_windows = ''Windows''"
    by (simp add: view_windows_def)
  have h7: "returns os_fine 0" and h8: "returns os_fine 1"
    by (rule os_fine_returns)+
  show ?thesis
    using h1 h4 h5 h6 h7 h8 two_regions_windows_scenario [OF h1 h2 h3 h4 h5 h6 h7 h8]
    by blast
qed

text \<open>
  C6 as stated fails: on that input, in an environment whose first call raises, one call
  is made, with offset 10, and none with offset 32.
\<close>

theorem windows_scenario_first_call_raises:
  "sel view_windows = [\<lparr>a = 10, b = 10\<rparr>, \<lparr>a = 30, b = 34\<rparr>]
   \<and> rowcol view_windows 10 = (0, 10) \<and> rowcol view_windows 30 = (2, 6)
   \<and> line_endings view_windows = ''Windows''
   \<and> map embedded_offset (attempts (OpenCpickOnSelection_run os_first_raises view_windows))
       = [Some 10]
   \<and> map embedded_offset (attempts (OpenQuickpickOnSelection_run os_first_raises view_windows))
       = [Some 10]
   \<and> raised (OpenCpickOnSelection_run os_first_raises view_windows) = Some OSError
   \<and> raised (OpenQuickpickOnSelection_run os_first_raises view_windows) = Some OSError"
  by code_simp

section \<open>A call that raises\<close>

text \<open>
  C9, as amended: no exception of a call is caught by the command. When the call for
  the Region at index \<open>k\<close> raises (the calls before it having returned), \<^verbatim>\<open>run\<close> ends with
  that exception; the calls made are those for the Regions up to and including index
  \<open>k\<close>, in order, and no call is made for the Regions after it. In both commands.
\<close>

theorem raising_call_ends_the_run:
  assumes "k < length (sel view)" and "\<forall>j<k. returns os j" and "os k = Inl e"
  shows "OpenCpickOnSelection_run os view
           = \<lparr>attempts = take (Suc k) (map (\<lambda>r. call_at ''cpick'' view (a r)) (sel view)),
              raised = Some e\<rparr>
       \<and> OpenQuickpickOnSelection_run os view
           = \<lparr>attempts = take (Suc k) (map (\<lambda>r. call_at ''quickpick'' view (a r)) (sel view)),
              raised = Some e\<rparr>"
proof -
  from assms(1) have ne: "sel view \<noteq> []"
    by auto
  note st = stops_at [OF assms]
  have "attempts (OpenCpickOnSelection_run os view)
          = take (Suc k) (map (\<lambda>r. call_at ''cpick'' view (a r)) (sel view))"
    by (simp only: cpick_run_attempts st(1))
  moreover have "raised (OpenCpickOnSelection_run os view) = Some e"
    using ne by (simp add: cpick_run_raised st(2))
  moreover have "attempts (OpenQuickpickOnSelection_run os view)
          = take (Suc k) (map (\<lambda>r. call_at ''quickpick'' view (a r)) (sel view))"
    by (simp only: quickpick_run_attempts st(1))
  moreover have "raised (OpenQuickpickOnSelection_run os view) = Some e"
    using ne by (simp add: quickpick_run_raised st(2))
  ultimately show ?thesis
    by (simp add: outcome.equality)
qed

theorem raising_call_ends_the_run_witness:
  "(1::nat) < length (sel view_three) \<and> returns os_second_raises 0
   \<and> os_second_raises 1 = Inl OSError
   \<and> OpenCpickOnSelection_run os_second_raises view_three
       = \<lparr>attempts = take 2 (map (\<lambda>r. call_at ''cpick'' view_three (a r)) (sel view_three)),
          raised = Some OSError\<rparr>
   \<and> OpenQuickpickOnSelection_run os_second_raises view_three
       = \<lparr>attempts = take 2 (map (\<lambda>r. call_at ''quickpick'' view_three (a r)) (sel view_three)),
          raised = Some OSError\<rparr>"
proof -
  have h1: "(1::nat) < length (sel view_three)"
    by (simp add: view_three_def)
  have r0: "returns os_second_raises 0"
    by (simp add: returns_def os_second_raises_def)
  then have h2: "\<forall>j<1. returns os_second_raises j"
    by simp
  have h3: "os_second_raises 1 = Inl OSError"
    by (simp add: os_second_raises_def)
  have two: "Suc 1 = 2"
    by simp
  show ?thesis
    using h1 r0 h3 raising_call_ends_the_run [OF h1 h2 h3] by (simp only: two simp_thms)
qed

text \<open>
  C9 as stated fails: with three Regions and an environment whose first call raises, the
  one call for the first Region is made and none for the second and third.
\<close>

theorem first_call_raises_later_regions_not_attempted:
  "length (sel view_three) = 3
   \<and> os_first_raises 0 = Inl OSError
   \<and> OpenCpickOnSelection_run os_first_raises view_three
       = \<lparr>attempts = [\<lparr>args = [''cpick'', ''/tmp/a.txt@5''], shell = True\<rparr>],
          raised = Some OSError\<rparr>
   \<and> OpenQuickpickOnSelection_run os_first_raises view_three
       = \<lparr>attempts = [\<lparr>args = [''quickpick'', ''/tmp/a.txt@5''], shell = True\<rparr>],
          raised = Some OSError\<rparr>"
  by code_simp

section \<open>What the shell is given\<close>

text \<open>
  C4: for the file \<^verbatim>\<open>/tmp/a.txt\<close> with one Region at offset 42, each command makes one
  call, whose argument list is the tool name and the launch target, with
  \<^verbatim>\<open>shell=True\<close>. On a POSIX host the program run for it is \<^verbatim>\<open>/bin/sh -c\<close> with the
  tool name as command string and the launch target as the next operand of the shell,
  not as an argument of the tool.
\<close>

theorem posix_shell_gets_the_target_as_its_own_operand:
  "OpenCpickOnSelection_run os_fine view_unix
     = \<lparr>attempts = [\<lparr>args = [''cpick'', ''/tmp/a.txt@42''], shell = True\<rparr>], raised = None\<rparr>
   \<and> map posix_exec_argv (attempts (OpenCpickOnSelection_run os_fine view_unix))
     = [[''/bin/sh'', ''-c'', ''cpick'', ''/tmp/a.txt@42'']]
   \<and> OpenQuickpickOnSelection_run os_fine view_unix
     = \<lparr>attempts = [\<lparr>args = [''quickpick'', ''/tmp/a.txt@42''], shell = True\<rparr>],
        raised = None\<rparr>
   \<and> map posix_exec_argv (attempts (OpenQuickpickOnSelection_run os_fine view_unix))
     = [[''/bin/sh'', ''-c'', ''quickpick'', ''/tmp/a.txt@42'']]"
  by code_simp

end
